theory Spec2Isabelle
  imports Complex_Main "HOL-Library.Sublist"
begin

section \<open>Python values used by the post-processing and MIDI modules\<close>

text \<open>
  The repository works on Python floats (beat times, durations, seconds) and unbounded
  integers (velocities, MIDI numbers, ticks). Integers are \<^typ>\<open>int\<close>. Floats are
  embedded as exact rationals: every float operation is read as the exact operation on
  \<^typ>\<open>rat\<close>, and a decimal literal such as \<^verbatim>\<open>0.25\<close> as its decimal value. Rounding
  error of IEEE doubles is outside this embedding.
\<close>

datatype py_error = ZeroDivisionError | KeyError | ValueError

text \<open>\<^verbatim>\<open>round(x)\<close> with one argument: nearest integer, ties to the even one.\<close>

definition py_round :: "rat \<Rightarrow> int" where
  "py_round x =
     (let f = \<lfloor>x\<rfloor>; d = x - of_int f
      in if d < 1 / 2 then f
         else if 1 / 2 < d then f + 1
         else if even f then f else f + 1)"

text \<open>\<^verbatim>\<open>int(x)\<close> on a float: truncation towards zero.\<close>

definition py_int :: "rat \<Rightarrow> int" where
  "py_int x = (if 0 \<le> x then \<lfloor>x\<rfloor> else \<lceil>x\<rceil>)"

text \<open>\<^verbatim>\<open>x % m\<close> on floats, for the positive moduli \<^verbatim>\<open>1.0\<close> and \<^verbatim>\<open>4.0\<close> the code uses:
  the result has the sign of the modulus.\<close>

definition py_fmod :: "rat \<Rightarrow> rat \<Rightarrow> rat" where
  "py_fmod x m = x - m * of_int \<lfloor>x / m\<rfloor>"

text \<open>\<^verbatim>\<open>str.lower()\<close> on ASCII text: the letters A to Z move to a to z, every other
  character stays.\<close>

definition lower_char :: "char \<Rightarrow> char" where
  "lower_char c =
     (let n = (of_char c :: nat)
      in if 65 \<le> n \<and> n \<le> 90 then char_of (n + 32) else c)"

definition lower :: "string \<Rightarrow> string" where
  "lower s = map lower_char s"

section \<open>config.py: the settings the core reads\<close>

record settings =
  quantize_grid :: rat
  swing_ratio :: rat
  humanize_timing :: rat
  humanize_velocity :: int
  velocity_min :: int
  velocity_max :: int

definition default_settings :: settings where
  "default_settings =
     \<lparr> quantize_grid = 25 / 100, swing_ratio = 66 / 100,
       humanize_timing = 15 / 1000, humanize_velocity = 8,
       velocity_min = 40, velocity_max = 120 \<rparr>"

section \<open>Note dictionaries\<close>

text \<open>
  A note is a Python dict. The validators of \<^verbatim>\<open>primer_generator.py\<close> build drum notes
  with the keys \<^verbatim>\<open>drum, midi_note, time, velocity\<close> and piano notes with the keys
  \<^verbatim>\<open>pitch, time, duration, velocity\<close>; the ghost notes of the funk stage have the
  drum shape. The keys \<^verbatim>\<open>time\<close> and \<^verbatim>\<open>velocity\<close> are in both shapes; a key that only
  one shape has is optional here, and reading it where it is absent is a \<^verbatim>\<open>KeyError\<close>.
\<close>

record note_dict =
  drum :: "string option"
  midi_note :: "int option"
  pitch :: "int option"
  time :: rat
  duration :: "rat option"
  velocity :: int

definition DRUM_MIDI_MAP :: "(string \<times> int) list" where
  "DRUM_MIDI_MAP =
     [(''kick'', 36), (''snare'', 38), (''rimshot'', 37), (''clap'', 39),
      (''hihat'', 42), (''hihat_open'', 46), (''ride'', 51), (''crash'', 49),
      (''tom_high'', 50), (''tom_mid'', 47), (''tom_low'', 45), (''cowbell'', 56)]"

section \<open>post\_processing.py: style detection\<close>

definition SWING_STYLES :: "string list" where
  "SWING_STYLES =
     [''jazz'', ''swing'', ''blues'', ''shuffle'', ''bebop'', ''dixieland'', ''ragtime'',
      ''big band'']"

definition ROCK_STYLES :: "string list" where
  "ROCK_STYLES =
     [''rock'', ''metal'', ''punk'', ''grunge'', ''hard rock'', ''classic rock'',
      ''alternative'']"

definition FUNK_STYLES :: "string list" where
  "FUNK_STYLES = [''funk'', ''soul'', ''motown'', ''r&b'', ''neo-soul'', ''disco'']"

definition REGGAE_STYLES :: "string list" where
  "REGGAE_STYLES = [''reggae'', ''ska'', ''dub'', ''dancehall'']"

text \<open>
  One loop \<^verbatim>\<open>for keyword in STYLES: if keyword in prompt_lower: return ...\<close>. The result
  says whether the loop returned. \<^verbatim>\<open>keyword in prompt_lower\<close> on strings is the test for
  a contiguous substring, \<^const>\<open>sublist\<close>. The keyword sets are Python sets, whose
  iteration order is not fixed; they are listed here in the order of the source text.
\<close>

fun keyword_loop :: "string list \<Rightarrow> string \<Rightarrow> bool" where
  "keyword_loop [] prompt_lower = False"
| "keyword_loop (keyword # rest) prompt_lower =
     (if sublist keyword prompt_lower then True else keyword_loop rest prompt_lower)"

definition detect_style_category :: "string \<Rightarrow> string" where
  "detect_style_category style_prompt =
     (let prompt_lower = lower style_prompt
      in if keyword_loop SWING_STYLES prompt_lower then ''swing''
         else if keyword_loop FUNK_STYLES prompt_lower then ''funk''
         else if keyword_loop ROCK_STYLES prompt_lower then ''rock''
         else if keyword_loop REGGAE_STYLES prompt_lower then ''reggae''
         else ''neutral'')"

section \<open>post\_processing.py: quantization\<close>

text \<open>The body of the loop of \<^verbatim>\<open>quantize_notes\<close>: the division by the grid raises
  \<^verbatim>\<open>ZeroDivisionError\<close> when the grid is zero; the duration is touched only when the
  key is there.\<close>

definition quantize_note :: "rat \<Rightarrow> note_dict \<Rightarrow> py_error + note_dict" where
  "quantize_note grid n =
     (if grid = 0 then Inl ZeroDivisionError
      else Inr (n\<lparr> time := of_int (py_round (time n / grid)) * grid,
                  duration :=
                    (case duration n of
                       None \<Rightarrow> None
                     | Some d \<Rightarrow> Some (max grid (of_int (py_round (d / grid)) * grid))) \<rparr>))"

fun quantize_loop :: "rat \<Rightarrow> note_dict list \<Rightarrow> note_dict list \<Rightarrow> py_error + note_dict list" where
  "quantize_loop grid [] quantized = Inr quantized"
| "quantize_loop grid (n # rest) quantized =
     (case quantize_note grid n of
        Inl e \<Rightarrow> Inl e
      | Inr n' \<Rightarrow> quantize_loop grid rest (quantized @ [n']))"

definition quantize_notes :: "settings \<Rightarrow> note_dict list \<Rightarrow> rat option \<Rightarrow> py_error + note_dict list" where
  "quantize_notes S note_list grid =
     (let g = (case grid of None \<Rightarrow> quantize_grid S | Some g' \<Rightarrow> g')
      in quantize_loop g note_list [])"

section \<open>post\_processing.py: style transforms\<close>

definition swing_note :: "rat \<Rightarrow> note_dict \<Rightarrow> note_dict" where
  "swing_note ratio n =
     (let beat_pos = py_fmod (time n) 1
      in if \<bar>beat_pos - 1 / 2\<bar> < 1 / 100
         then (let beat_floor = time n - beat_pos in n\<lparr> time := beat_floor + ratio \<rparr>)
         else if \<bar>beat_pos - 3 / 4\<bar> < 1 / 100
         then (let beat_floor = time n - beat_pos
               in n\<lparr> time := beat_floor + 1 / 2 + ratio / 2 \<rparr>)
         else n)"

definition apply_swing :: "settings \<Rightarrow> note_dict list \<Rightarrow> rat option \<Rightarrow> note_dict list" where
  "apply_swing S note_list ratio =
     (let r = (case ratio of None \<Rightarrow> swing_ratio S | Some r' \<Rightarrow> r')
      in if \<bar>r - 1 / 2\<bar> < 1 / 100 then note_list else map (swing_note r) note_list)"

definition rock_note :: "settings \<Rightarrow> note_dict \<Rightarrow> note_dict" where
  "rock_note S n =
     (let beat_pos = py_fmod (time n) 4
      in if \<bar>beat_pos\<bar> < 1 / 100 \<or> \<bar>beat_pos - 2\<bar> < 1 / 100
         then n\<lparr> velocity := min (velocity_max S) (py_int (of_int (velocity n) * (115 / 100))) \<rparr>
         else if \<bar>beat_pos - 1\<bar> < 1 / 100 \<or> \<bar>beat_pos - 3\<bar> < 1 / 100
         then n\<lparr> velocity := max (velocity_min S) (py_int (of_int (velocity n) * (95 / 100))) \<rparr>
         else n)"

definition apply_rock_emphasis :: "settings \<Rightarrow> note_dict list \<Rightarrow> note_dict list" where
  "apply_rock_emphasis S note_list = map (rock_note S) note_list"

definition reggae_note :: "settings \<Rightarrow> note_dict \<Rightarrow> note_dict" where
  "reggae_note S n =
     (let beat_pos = py_fmod (time n) 1
      in if \<bar>beat_pos - 1 / 2\<bar> < 1 / 10
         then n\<lparr> velocity := min (velocity_max S) (py_int (of_int (velocity n) * (12 / 10))) \<rparr>
         else if \<bar>beat_pos\<bar> < 1 / 10
         then n\<lparr> velocity := max (velocity_min S) (py_int (of_int (velocity n) * (85 / 100))) \<rparr>
         else n)"

definition apply_reggae_offbeat :: "settings \<Rightarrow> note_dict list \<Rightarrow> note_dict list" where
  "apply_reggae_offbeat S note_list = map (reggae_note S) note_list"

section \<open>The \<^verbatim>\<open>random\<close> module\<close>

text \<open>
  The funk and humanize stages call \<^verbatim>\<open>random.random()\<close>, \<^verbatim>\<open>random.randint(a, b)\<close> and
  \<^verbatim>\<open>random.gauss(mu, sigma)\<close> of Python's standard library. All three read and advance
  one generator that belongs to the process. The generator is library code, so it is a
  parameter here: its state has any type \<^typ>\<open>'g\<close>, and each call maps a state to a
  value and the next state. The stages thread that state in the order of their calls.
\<close>

record 'g random_module =
  rnd_random :: "'g \<Rightarrow> rat \<times> 'g"
  rnd_randint :: "int \<Rightarrow> int \<Rightarrow> 'g \<Rightarrow> int \<times> 'g"
  rnd_gauss :: "rat \<Rightarrow> rat \<Rightarrow> 'g \<Rightarrow> rat \<times> 'g"

text \<open>What the library documents: \<^verbatim>\<open>random()\<close> lies in \<open>[0, 1)\<close> and \<^verbatim>\<open>randint(a, b)\<close>
  in \<open>[a, b]\<close>.\<close>

definition random_contract :: "'g random_module \<Rightarrow> bool" where
  "random_contract R \<longleftrightarrow>
     (\<forall>g. 0 \<le> fst (rnd_random R g) \<and> fst (rnd_random R g) < 1) \<and>
     (\<forall>a b g. a \<le> b \<longrightarrow> a \<le> fst (rnd_randint R a b g) \<and> fst (rnd_randint R a b g) \<le> b)"

text \<open>A generator for running the stages on concrete inputs: its state is a tape of
  integers, and each call consumes the head of the tape.\<close>

definition tape_random :: "int list random_module" where
  "tape_random =
     \<lparr> rnd_random = (\<lambda>g. case g of [] \<Rightarrow> (0, []) | x # xs \<Rightarrow> (of_int (x mod 100) / 100, xs)),
       rnd_randint = (\<lambda>a b g. case g of [] \<Rightarrow> (a, []) | x # xs \<Rightarrow> (a + x mod (b - a + 1), xs)),
       rnd_gauss = (\<lambda>mu sigma g. case g of [] \<Rightarrow> (mu, []) | x # xs \<Rightarrow> (mu + sigma * of_int x, xs)) \<rparr>"

section \<open>post\_processing.py: funk ghost notes\<close>

text \<open>\<^verbatim>\<open>max(..., default=d)\<close> over a generator.\<close>

fun py_max_default :: "rat list \<Rightarrow> rat \<Rightarrow> rat" where
  "py_max_default [] d = d"
| "py_max_default (x # xs) d = fold max xs x"

definition ghost_note :: "rat \<Rightarrow> int \<Rightarrow> note_dict" where
  "ghost_note slot v =
     \<lparr> drum = Some ''snare'', midi_note = Some 38, pitch = None, time = slot,
       duration = None, velocity = v \<rparr>"

text \<open>
  The inner loop \<^verbatim>\<open>for sixteenth in range(16)\<close> over the remaining indices, with the
  list of ghosts and the generator as the state: \<^verbatim>\<open>break\<close> leaves the loop,
  \<^verbatim>\<open>continue\<close> goes to the next index, and \<^verbatim>\<open>random.random()\<close> is called only when
  \<^verbatim>\<open>beat_sub in (1, 3)\<close> holds, as \<^verbatim>\<open>and\<close> evaluates its right side only then.
\<close>

fun sixteenth_loop ::
  "'g random_module \<Rightarrow> rat list \<Rightarrow> rat \<Rightarrow> int \<Rightarrow> int list \<Rightarrow> note_dict list \<times> 'g \<Rightarrow> note_dict list \<times> 'g"
where
  "sixteenth_loop R snare_times max_time bar [] (new_ghosts, g) = (new_ghosts, g)"
| "sixteenth_loop R snare_times max_time bar (sixteenth # rest) (new_ghosts, g) =
     (let slot = of_int bar * 4 + of_int sixteenth * (25 / 100)
      in if slot > max_time then (new_ghosts, g)
         else if list_ex (\<lambda>t. \<bar>slot - t\<bar> < 1 / 100) snare_times
         then sixteenth_loop R snare_times max_time bar rest (new_ghosts, g)
         else (let beat_sub = sixteenth mod 4
               in if beat_sub = 1 \<or> beat_sub = 3
                  then (let (r, g1) = rnd_random R g
                        in if r < 4 / 10
                           then (let (v, g2) = rnd_randint R 35 55 g1
                                 in sixteenth_loop R snare_times max_time bar rest
                                      (new_ghosts @ [ghost_note slot v], g2))
                           else sixteenth_loop R snare_times max_time bar rest (new_ghosts, g1))
                  else sixteenth_loop R snare_times max_time bar rest (new_ghosts, g)))"

fun bar_loop ::
  "'g random_module \<Rightarrow> rat list \<Rightarrow> rat \<Rightarrow> int list \<Rightarrow> note_dict list \<times> 'g \<Rightarrow> note_dict list \<times> 'g"
where
  "bar_loop R snare_times max_time [] st = st"
| "bar_loop R snare_times max_time (bar # rest) st =
     bar_loop R snare_times max_time rest
       (sixteenth_loop R snare_times max_time bar [0..15] st)"

definition add_funk_ghost_notes ::
  "'g random_module \<Rightarrow> note_dict list \<Rightarrow> 'g \<Rightarrow> note_dict list \<times> 'g"
where
  "add_funk_ghost_notes R note_list g =
     (let result = note_list;
          snare_times = map time (filter (\<lambda>n. drum n = Some ''snare'') result);
          max_time = py_max_default (map time result) 0;
          bars = py_int (max_time / 4) + 1;
          (new_ghosts, g') = bar_loop R snare_times max_time [0..bars - 1] ([], g)
      in (result @ new_ghosts, g'))"

section \<open>post\_processing.py: humanization\<close>

text \<open>\<^verbatim>\<open>random.randint(-velocity_amount, velocity_amount)\<close> raises \<^verbatim>\<open>ValueError\<close> on
  an empty range, that is for a negative amount.\<close>

fun humanize_loop ::
  "settings \<Rightarrow> 'g random_module \<Rightarrow> rat \<Rightarrow> int \<Rightarrow> note_dict list \<Rightarrow> note_dict list \<times> 'g
     \<Rightarrow> py_error + (note_dict list \<times> 'g)"
where
  "humanize_loop S R timing_amount velocity_amount [] (humanized, g) = Inr (humanized, g)"
| "humanize_loop S R timing_amount velocity_amount (n # rest) (humanized, g) =
     (let (drawn, g1) = rnd_gauss R 0 (timing_amount / 2) g;
          time_offset = max (- timing_amount) (min timing_amount drawn);
          new_time = max 0 (time n + time_offset)
      in if velocity_amount < 0 then Inl ValueError
         else (let (vel_offset, g2) = rnd_randint R (- velocity_amount) velocity_amount g1;
                   n' = n\<lparr> time := new_time,
                            velocity :=
                              max (velocity_min S)
                                (min (velocity_max S) (velocity n + vel_offset)) \<rparr>
               in humanize_loop S R timing_amount velocity_amount rest (humanized @ [n'], g2)))"

definition humanize ::
  "settings \<Rightarrow> 'g random_module \<Rightarrow> note_dict list \<Rightarrow> rat option \<Rightarrow> int option \<Rightarrow> 'g
     \<Rightarrow> py_error + (note_dict list \<times> 'g)"
where
  "humanize S R note_list timing_amount velocity_amount g =
     (let ta = (case timing_amount of None \<Rightarrow> humanize_timing S | Some t \<Rightarrow> t);
          va = (case velocity_amount of None \<Rightarrow> humanize_velocity S | Some v \<Rightarrow> v)
      in humanize_loop S R ta va note_list ([], g))"

section \<open>post\_processing.py: the pipeline\<close>

text \<open>Step 2 of \<^verbatim>\<open>post_process\<close>: the dispatch on the detected category.\<close>

definition style_transform ::
  "settings \<Rightarrow> 'g random_module \<Rightarrow> string \<Rightarrow> string \<Rightarrow> note_dict list \<Rightarrow> 'g
     \<Rightarrow> note_dict list \<times> 'g"
where
  "style_transform S R category instrument processed g =
     (if category = ''swing'' then (apply_swing S processed None, g)
      else if category = ''rock'' then (apply_rock_emphasis S processed, g)
      else if category = ''funk''
      then (let emphasized = apply_rock_emphasis S processed
            in if instrument = ''drums'' then add_funk_ghost_notes R emphasized g
               else (emphasized, g))
      else if category = ''reggae'' then (apply_reggae_offbeat S processed, g)
      else (processed, g))"

definition post_process ::
  "settings \<Rightarrow> 'g random_module \<Rightarrow> note_dict list \<Rightarrow> string \<Rightarrow> string \<Rightarrow> 'g
     \<Rightarrow> py_error + (note_dict list \<times> 'g)"
where
  "post_process S R note_list style instrument g =
     (if note_list = [] then Inr (note_list, g)
      else (case quantize_notes S note_list None of
              Inl e \<Rightarrow> Inl e
            | Inr quantized \<Rightarrow>
                (let category = detect_style_category style;
                     (processed, g1) = style_transform S R category instrument quantized g
                 in (case humanize S R processed None None g1 of
                       Inl e \<Rightarrow> Inl e
                     | Inr (humanized, g2) \<Rightarrow> Inr (sort_key time humanized, g2)))))"

section \<open>magenta\_continuator.py: building a sequence\<close>

text \<open>
  \<^verbatim>\<open>_FallbackNote\<close> and \<^verbatim>\<open>FallbackSequence\<close>. The \<^verbatim>\<open>NoteSequence\<close> protobuf of the
  \<^verbatim>\<open>note_seq\<close> library carries the same fields except \<^verbatim>\<open>tempo\<close>, so one record stands
  for both, with \<^verbatim>\<open>tempo\<close> optional.
\<close>

record seq_note =
  sn_pitch :: int
  sn_start_time :: rat
  sn_end_time :: rat
  sn_velocity :: int
  sn_is_drum :: bool
  sn_instrument :: int

record note_sequence =
  seq_notes :: "seq_note list"
  seq_tempos :: "int list"
  seq_tempo :: "int option"
  seq_ticks_per_quarter :: int
  seq_total_time :: rat

definition beats_to_seconds :: "rat \<Rightarrow> int \<Rightarrow> py_error + rat" where
  "beats_to_seconds beats tempo =
     (if tempo = 0 then Inl ZeroDivisionError else Inr (beats * 60 / of_int tempo))"

definition FallbackSequence :: "int \<Rightarrow> note_sequence" where
  "FallbackSequence tempo =
     \<lparr> seq_notes = [], seq_tempos = [tempo], seq_tempo = Some tempo,
       seq_ticks_per_quarter = 480, seq_total_time = 0 \<rparr>"

definition add_note :: "note_sequence \<Rightarrow> seq_note \<Rightarrow> note_sequence" where
  "add_note seq n =
     seq\<lparr> seq_notes := seq_notes seq @ [n],
          seq_total_time := max (seq_total_time seq) (sn_end_time n) \<rparr>"

text \<open>The protobuf path: \<^verbatim>\<open>seq.notes.add()\<close> appends, and \<^verbatim>\<open>total_time\<close> is set after
  the loop, only when there are notes.\<close>

definition pb_sequence :: "int \<Rightarrow> note_sequence" where
  "pb_sequence tempo =
     \<lparr> seq_notes = [], seq_tempos = [tempo], seq_tempo = None,
       seq_ticks_per_quarter = 480, seq_total_time = 0 \<rparr>"

definition pb_add :: "note_sequence \<Rightarrow> seq_note \<Rightarrow> note_sequence" where
  "pb_add seq n = seq\<lparr> seq_notes := seq_notes seq @ [n] \<rparr>"

definition pb_set_total_time :: "note_sequence \<Rightarrow> note_sequence" where
  "pb_set_total_time seq =
     (if seq_notes seq = [] then seq
      else seq\<lparr> seq_total_time := Max (set (map sn_end_time (seq_notes seq))) \<rparr>)"

text \<open>The note built by one round of the loop of \<^verbatim>\<open>_drum_notes_to_sequence\<close>: the
  conversion of the time comes first, then the read of \<^verbatim>\<open>midi_note\<close>.\<close>

definition drum_seq_note :: "int \<Rightarrow> note_dict \<Rightarrow> py_error + seq_note" where
  "drum_seq_note tempo n =
     (case beats_to_seconds (time n) tempo of
        Inl e \<Rightarrow> Inl e
      | Inr start_seconds \<Rightarrow>
          (case midi_note n of
             None \<Rightarrow> Inl KeyError
           | Some p \<Rightarrow>
               Inr \<lparr> sn_pitch = p, sn_start_time = start_seconds,
                     sn_end_time = start_seconds + 5 / 100, sn_velocity = velocity n,
                     sn_is_drum = True, sn_instrument = 9 \<rparr>))"

text \<open>The same for \<^verbatim>\<open>_piano_notes_to_sequence\<close>: time, then \<^verbatim>\<open>duration\<close>, then
  \<^verbatim>\<open>pitch\<close>.\<close>

definition piano_seq_note :: "int \<Rightarrow> note_dict \<Rightarrow> py_error + seq_note" where
  "piano_seq_note tempo n =
     (case beats_to_seconds (time n) tempo of
        Inl e \<Rightarrow> Inl e
      | Inr start_seconds \<Rightarrow>
          (case duration n of
             None \<Rightarrow> Inl KeyError
           | Some d \<Rightarrow>
               (case beats_to_seconds d tempo of
                  Inl e \<Rightarrow> Inl e
                | Inr dur_seconds \<Rightarrow>
                    (case pitch n of
                       None \<Rightarrow> Inl KeyError
                     | Some p \<Rightarrow>
                         Inr \<lparr> sn_pitch = p, sn_start_time = start_seconds,
                               sn_end_time = start_seconds + dur_seconds,
                               sn_velocity = velocity n, sn_is_drum = False,
                               sn_instrument = 0 \<rparr>))))"

text \<open>The loop \<^verbatim>\<open>for note in notes\<close> of both converters, over the function that builds
  one note and the function that appends it.\<close>

fun notes_loop ::
  "(note_dict \<Rightarrow> py_error + seq_note) \<Rightarrow> (note_sequence \<Rightarrow> seq_note \<Rightarrow> note_sequence)
     \<Rightarrow> note_dict list \<Rightarrow> note_sequence \<Rightarrow> py_error + note_sequence"
where
  "notes_loop build append_note [] seq = Inr seq"
| "notes_loop build append_note (n # rest) seq =
     (case build n of
        Inl e \<Rightarrow> Inl e
      | Inr sn \<Rightarrow> notes_loop build append_note rest (append_note seq sn))"

text \<open>The flag is \<^verbatim>\<open>_NOTE_SEQ_AVAILABLE\<close>.\<close>

definition drum_notes_to_sequence :: "bool \<Rightarrow> note_dict list \<Rightarrow> int \<Rightarrow> py_error + note_sequence" where
  "drum_notes_to_sequence NOTE_SEQ_AVAILABLE note_list tempo =
     (if NOTE_SEQ_AVAILABLE
      then (case notes_loop (drum_seq_note tempo) pb_add note_list (pb_sequence tempo) of
              Inl e \<Rightarrow> Inl e
            | Inr seq \<Rightarrow> Inr (pb_set_total_time seq))
      else notes_loop (drum_seq_note tempo) add_note note_list (FallbackSequence tempo))"

definition piano_notes_to_sequence :: "bool \<Rightarrow> note_dict list \<Rightarrow> int \<Rightarrow> py_error + note_sequence" where
  "piano_notes_to_sequence NOTE_SEQ_AVAILABLE note_list tempo =
     (if NOTE_SEQ_AVAILABLE
      then (case notes_loop (piano_seq_note tempo) pb_add note_list (pb_sequence tempo) of
              Inl e \<Rightarrow> Inl e
            | Inr seq \<Rightarrow> Inr (pb_set_total_time seq))
      else notes_loop (piano_seq_note tempo) add_note note_list (FallbackSequence tempo))"

definition primer_only_to_sequence ::
  "bool \<Rightarrow> note_dict list \<Rightarrow> string \<Rightarrow> int \<Rightarrow> py_error + note_sequence"
where
  "primer_only_to_sequence NOTE_SEQ_AVAILABLE note_list instrument tempo =
     (if instrument = ''drums'' then drum_notes_to_sequence NOTE_SEQ_AVAILABLE note_list tempo
      else piano_notes_to_sequence NOTE_SEQ_AVAILABLE note_list tempo)"

section \<open>magenta\_continuator.py: the MIDI writer\<close>

text \<open>
  \<^verbatim>\<open>_write_midi_with_mido\<close> builds a \<^verbatim>\<open>mido.MidiFile\<close> with one track and saves it. The
  model stops at the file object: the track is the list of messages appended, a note
  message holding \<^verbatim>\<open>(type, note, velocity, channel, time)\<close> with \<^verbatim>\<open>time\<close> the delta in
  ticks. The tempo message keeps the beats per minute handed to \<^verbatim>\<open>mido.bpm2tempo\<close>.
\<close>

datatype track_msg =
  MetaSetTempo int
| Message string int int int int

record midi_file =
  ticks_per_beat :: int
  track :: "track_msg list"

type_synonym event = "int \<times> string \<times> int \<times> int \<times> int"

definition sequence_tempo_bpm :: "note_sequence \<Rightarrow> int" where
  "sequence_tempo_bpm seq =
     (case seq_tempos seq of
        qpm # _ \<Rightarrow> qpm
      | [] \<Rightarrow> (case seq_tempo seq of Some t \<Rightarrow> t | None \<Rightarrow> 120))"

definition start_tick :: "int \<Rightarrow> seq_note \<Rightarrow> int" where
  "start_tick tempo_bpm n = py_int (sn_start_time n / 60 * of_int tempo_bpm * 480)"

definition end_tick :: "int \<Rightarrow> seq_note \<Rightarrow> int" where
  "end_tick tempo_bpm n = py_int (sn_end_time n / 60 * of_int tempo_bpm * 480)"

text \<open>The two events one note contributes, in the order they are appended.\<close>

definition note_events :: "int \<Rightarrow> seq_note \<Rightarrow> event list" where
  "note_events tempo_bpm n =
     (let channel = (if sn_is_drum n then 9 else 0)
      in [(start_tick tempo_bpm n, ''note_on'', sn_pitch n, sn_velocity n, channel),
          (end_tick tempo_bpm n, ''note_off'', sn_pitch n, 0, channel)])"

definition collect_events :: "int \<Rightarrow> seq_note list \<Rightarrow> event list" where
  "collect_events tempo_bpm ns = concat (map (note_events tempo_bpm) ns)"

text \<open>The loop that turns absolute ticks into deltas, with \<^verbatim>\<open>prev_tick\<close> as its state.\<close>

fun delta_loop :: "event list \<Rightarrow> int \<Rightarrow> track_msg list" where
  "delta_loop [] prev_tick = []"
| "delta_loop ((tick, msg_type, p, v, channel) # rest) prev_tick =
     Message msg_type p v channel (max 0 (tick - prev_tick)) # delta_loop rest tick"

text \<open>\<^verbatim>\<open>events.sort(key=lambda e: e[0])\<close> is a stable sort on the tick.\<close>

definition sorted_events :: "note_sequence \<Rightarrow> event list" where
  "sorted_events seq = sort_key fst (collect_events (sequence_tempo_bpm seq) (seq_notes seq))"

definition write_midi_with_mido :: "note_sequence \<Rightarrow> midi_file" where
  "write_midi_with_mido seq =
     \<lparr> ticks_per_beat = 480,
       track = MetaSetTempo (sequence_tempo_bpm seq) # delta_loop (sorted_events seq) 0 \<rparr>"

text \<open>
  \<^verbatim>\<open>sequence_to_midi_file\<close> hands the sequence to \<^verbatim>\<open>_write_midi_with_mido\<close> when the
  \<^verbatim>\<open>note_seq\<close> library is missing; with the library present it calls the library's own
  writer, which is not code of this repository. The path from primer notes to the file
  written by this repository is therefore the one with \<^verbatim>\<open>_NOTE_SEQ_AVAILABLE\<close> false.
\<close>

definition primer_to_midi :: "note_dict list \<Rightarrow> string \<Rightarrow> int \<Rightarrow> py_error + midi_file" where
  "primer_to_midi note_list instrument tempo =
     (case primer_only_to_sequence False note_list instrument tempo of
        Inl e \<Rightarrow> Inl e
      | Inr seq \<Rightarrow> Inr (write_midi_with_mido seq))"

section \<open>Reading a track back\<close>


section \<open>The style classifier as the specification words it\<close>

text \<open>
  The specification gives four keyword sets and a priority order: a text belongs to a
  category when its lower-cased form contains one of the category's keywords, the first
  category in the order Swing, Funk, Rock, Reggae wins, and a text that matches none is
  Neutral.
\<close>

definition swing_keywords :: "string set" where
  "swing_keywords =
     {''jazz'', ''swing'', ''blues'', ''shuffle'', ''bebop'', ''dixieland'', ''ragtime'',
      ''big band''}"

definition rock_keywords :: "string set" where
  "rock_keywords =
     {''rock'', ''metal'', ''punk'', ''grunge'', ''hard rock'', ''classic rock'',
      ''alternative''}"

definition funk_keywords :: "string set" where
  "funk_keywords = {''funk'', ''soul'', ''motown'', ''r&b'', ''neo-soul'', ''disco''}"

definition reggae_keywords :: "string set" where
  "reggae_keywords = {''reggae'', ''ska'', ''dub'', ''dancehall''}"

definition matches :: "string set \<Rightarrow> string \<Rightarrow> bool" where
  "matches K s \<longleftrightarrow> (\<exists>k \<in> K. sublist k (lower s))"

definition classify_spec :: "string \<Rightarrow> string" where
  "classify_spec s =
     (if matches swing_keywords s then ''swing''
      else if matches funk_keywords s then ''funk''
      else if matches rock_keywords s then ''rock''
      else if matches reggae_keywords s then ''reggae''
      else ''neutral'')"

section \<open>The quantizer as the specification words it\<close>

text \<open>
  The specification: each note's time is replaced by \<^verbatim>\<open>round(time / g) * g\<close>, each
  Pitched note's duration by \<^verbatim>\<open>max(g, round(duration / g) * g)\<close>, and a Percussive
  note's duration is untouched. A Pitched note is a dict with a \<^verbatim>\<open>duration\<close> key; a
  Percussive note has none.
\<close>

definition snap_to_grid :: "rat \<Rightarrow> rat \<Rightarrow> rat" where
  "snap_to_grid g x = of_int (py_round (x / g)) * g"

definition quantize_spec :: "rat \<Rightarrow> note_dict \<Rightarrow> note_dict" where
  "quantize_spec g n =
     (case duration n of
        None \<Rightarrow> n\<lparr> time := snap_to_grid g (time n) \<rparr>
      | Some d \<Rightarrow> n\<lparr> time := snap_to_grid g (time n),
                      duration := Some (max g (snap_to_grid g d)) \<rparr>)"

text \<open>Notes used to run the code on concrete inputs.\<close>

definition drum_hit :: "string \<Rightarrow> int \<Rightarrow> rat \<Rightarrow> int \<Rightarrow> note_dict" where
  "drum_hit name key t v =
     \<lparr> drum = Some name, midi_note = Some key, pitch = None, time = t, duration = None,
       velocity = v \<rparr>"

definition piano_key :: "int \<Rightarrow> rat \<Rightarrow> rat \<Rightarrow> int \<Rightarrow> note_dict" where
  "piano_key p t d v =
     \<lparr> drum = None, midi_note = None, pitch = Some p, time = t, duration = Some d,
       velocity = v \<rparr>"

section \<open>Notes that carry the keys their converter reads\<close>

text \<open>
  \<^verbatim>\<open>_drum_notes_to_sequence\<close> reads \<^verbatim>\<open>midi_note\<close>, \<^verbatim>\<open>_piano_notes_to_sequence\<close> reads
  \<^verbatim>\<open>pitch\<close> and \<^verbatim>\<open>duration\<close>. The validators of the primer generator produce notes with
  these keys; \<^verbatim>\<open>primer_only_to_sequence\<close> picks the converter by the instrument.
\<close>

definition well_keyed :: "string \<Rightarrow> note_dict \<Rightarrow> bool" where
  "well_keyed instrument n \<longleftrightarrow>
     (if instrument = ''drums'' then midi_note n \<noteq> None
      else pitch n \<noteq> None \<and> duration n \<noteq> None)"

definition build_for :: "string \<Rightarrow> int \<Rightarrow> note_dict \<Rightarrow> py_error + seq_note" where
  "build_for instrument tempo =
     (if instrument = ''drums'' then drum_seq_note tempo else piano_seq_note tempo)"

section \<open>The funk slots as the specification words them\<close>

text \<open>
  The specification: for every sixteenth-note slot up to the last note time, if no
  snare hit lies within 0.01 beats of the slot and the slot is an odd sixteenth of its
  beat, a ghost note is inserted with probability 0.4. The candidate slots of one bar,
  out of the sixteenth indices \<open>xs\<close>, and of a whole note list, bar after bar:
\<close>

definition slot_time :: "int \<Rightarrow> int \<Rightarrow> rat" where
  "slot_time bar sixteenth = of_int bar * 4 + of_int sixteenth * (25 / 100)"

definition near_snare :: "rat list \<Rightarrow> rat \<Rightarrow> bool" where
  "near_snare snare_times slot = list_ex (\<lambda>t. \<bar>slot - t\<bar> < 1 / 100) snare_times"

definition bar_slots :: "rat list \<Rightarrow> rat \<Rightarrow> int \<Rightarrow> int list \<Rightarrow> rat list" where
  "bar_slots snare_times max_time bar xs =
     map (slot_time bar)
       (filter (\<lambda>s. (s mod 4 = 1 \<or> s mod 4 = 3) \<and> \<not> near_snare snare_times (slot_time bar s))
          (takeWhile (\<lambda>s. \<not> slot_time bar s > max_time) xs))"

definition candidate_slots :: "note_dict list \<Rightarrow> rat list" where
  "candidate_slots note_list =
     (let snare_times = map time (filter (\<lambda>n. drum n = Some ''snare'') note_list);
          max_time = py_max_default (map time note_list) 0;
          bars = py_int (max_time / 4) + 1
      in concat (map (\<lambda>bar. bar_slots snare_times max_time bar [0..15]) [0..bars - 1]))"

text \<open>The draws at one candidate slot, and a pass over a list of candidate slots.\<close>

definition ghost_draw :: "'g random_module \<Rightarrow> 'g \<Rightarrow> 'g" where
  "ghost_draw R g =
     (let (r, g1) = rnd_random R g
      in if r < 4 / 10 then snd (rnd_randint R 35 55 g1) else g1)"

fun ghost_run ::
  "'g random_module \<Rightarrow> rat list \<Rightarrow> note_dict list \<times> 'g \<Rightarrow> note_dict list \<times> 'g"
where
  "ghost_run R [] st = st"
| "ghost_run R (slot # rest) (new_ghosts, g) =
     (let (r, g1) = rnd_random R g
      in if r < 4 / 10
         then (let (v, g2) = rnd_randint R 35 55 g1
               in ghost_run R rest (new_ghosts @ [ghost_note slot v], g2))
         else ghost_run R rest (new_ghosts, g1))"

text \<open>The draws of the humanizer for one note.\<close>

definition humanize_draw :: "'g random_module \<Rightarrow> rat \<Rightarrow> int \<Rightarrow> 'g \<Rightarrow> 'g" where
  "humanize_draw R timing_amount velocity_amount g =
     snd (rnd_randint R (- velocity_amount) velocity_amount
            (snd (rnd_gauss R 0 (timing_amount / 2) g)))"

definition velocities_within :: "settings \<Rightarrow> note_dict list \<Rightarrow> bool" where
  "velocities_within S note_list =
     list_all (\<lambda>n. velocity_min S \<le> velocity n \<and> velocity n \<le> velocity_max S) note_list"

definition example_groove :: "note_dict list" where
  "example_groove =
     [drum_hit ''kick'' 36 0 100, drum_hit ''snare'' 38 (3 / 4) 90,
      drum_hit ''hihat'' 42 (5 / 4) 70]"

section \<open>Style classification\<close>

lemma keyword_loop_iff: "keyword_loop ks s \<longleftrightarrow> (\<exists>k \<in> set ks. sublist k s)"
  by (induction ks) auto

lemma keyword_lists_are_spec_sets:
  "set SWING_STYLES = swing_keywords" "set FUNK_STYLES = funk_keywords"
  "set ROCK_STYLES = rock_keywords" "set REGGAE_STYLES = reggae_keywords"
  by (simp_all add: SWING_STYLES_def FUNK_STYLES_def ROCK_STYLES_def REGGAE_STYLES_def
      swing_keywords_def funk_keywords_def rock_keywords_def reggae_keywords_def)

text \<open>
  Claim C7. For every style text, \<^const>\<open>detect_style_category\<close> lower-cases the text
  and tests it against the four keyword sets; the first matching category in the order
  Swing, Funk, Rock, Reggae wins, and Neutral is the result when nothing matches. The
  function is total and deterministic: it is a function of the text alone and its value
  is always one of the five categories.
\<close>

theorem detect_style_category_refines_spec:
  "detect_style_category s = classify_spec s \<and>
   detect_style_category s \<in> {''swing'', ''funk'', ''rock'', ''reggae'', ''neutral''}"
  by (simp add: detect_style_category_def classify_spec_def matches_def keyword_loop_iff
      keyword_lists_are_spec_sets Let_def)

theorem detect_style_category_refines_spec_witness:
  "detect_style_category ''1920s Jazz piano'' = ''swing'' \<and>
   classify_spec ''1920s Jazz piano'' = ''swing''"
proof -
  have "detect_style_category ''1920s Jazz piano'' = ''swing''" by code_simp
  with detect_style_category_refines_spec [of "''1920s Jazz piano''"] show ?thesis by simp
qed

text \<open>
  Claim C9, as amended. Keywords are matched as substrings of the lower-cased text, also
  inside a longer word. A text that contains a keyword is assigned that keyword's
  category when no keyword of a category earlier in the order Swing, Funk, Rock, Reggae
  occurs in it as well, and it is never Neutral.
\<close>

theorem keyword_substring_category:
  assumes "sublist k (lower s)"
  shows "(k \<in> set SWING_STYLES \<longrightarrow> detect_style_category s = ''swing'') \<and>
         (k \<in> set FUNK_STYLES \<longrightarrow> \<not> keyword_loop SWING_STYLES (lower s) \<longrightarrow>
            detect_style_category s = ''funk'') \<and>
         (k \<in> set ROCK_STYLES \<longrightarrow> \<not> keyword_loop SWING_STYLES (lower s) \<longrightarrow>
            \<not> keyword_loop FUNK_STYLES (lower s) \<longrightarrow> detect_style_category s = ''rock'') \<and>
         (k \<in> set REGGAE_STYLES \<longrightarrow> \<not> keyword_loop SWING_STYLES (lower s) \<longrightarrow>
            \<not> keyword_loop FUNK_STYLES (lower s) \<longrightarrow> \<not> keyword_loop ROCK_STYLES (lower s) \<longrightarrow>
            detect_style_category s = ''reggae'') \<and>
         (k \<in> set (SWING_STYLES @ FUNK_STYLES @ ROCK_STYLES @ REGGAE_STYLES) \<longrightarrow>
            detect_style_category s \<noteq> ''neutral'')"
  using assms by (auto simp: detect_style_category_def Let_def keyword_loop_iff)

text \<open>The witness: \<^verbatim>\<open>dub\<close> inside \<^verbatim>\<open>Dubstep\<close> gives Reggae.\<close>

theorem keyword_substring_category_witness:
  "sublist ''dub'' (lower ''Dubstep'') \<and> ''dub'' \<in> set REGGAE_STYLES \<and>
   \<not> keyword_loop SWING_STYLES (lower ''Dubstep'') \<and>
   \<not> keyword_loop FUNK_STYLES (lower ''Dubstep'') \<and>
   \<not> keyword_loop ROCK_STYLES (lower ''Dubstep'') \<and>
   detect_style_category ''Dubstep'' = ''reggae'' \<and>
   detect_style_category ''Dubstep'' \<noteq> ''neutral''"
proof -
  have a: "sublist ''dub'' (lower ''Dubstep'')" by code_simp
  have b: "''dub'' \<in> set REGGAE_STYLES" by (simp add: REGGAE_STYLES_def)
  have c: "\<not> keyword_loop SWING_STYLES (lower ''Dubstep'')" by code_simp
  have d: "\<not> keyword_loop FUNK_STYLES (lower ''Dubstep'')" by code_simp
  have e: "\<not> keyword_loop ROCK_STYLES (lower ''Dubstep'')" by code_simp
  from keyword_substring_category [OF a] a b c d e show ?thesis by simp
qed

text \<open>The claim as it was stated fails where two categories match: \<^verbatim>\<open>jazz dubstep\<close>
  contains the Reggae keyword \<^verbatim>\<open>dub\<close> and is classified as Swing.\<close>

theorem keyword_category_counterexample:
  "sublist ''dub'' (lower ''jazz dubstep'') \<and> ''dub'' \<in> set REGGAE_STYLES \<and>
   detect_style_category ''jazz dubstep'' = ''swing'' \<and>
   detect_style_category ''jazz dubstep'' \<noteq> ''reggae''"
proof -
  have a: "sublist ''dub'' (lower ''jazz dubstep'')" by code_simp
  have b: "''dub'' \<in> set REGGAE_STYLES" by (simp add: REGGAE_STYLES_def)
  have c: "detect_style_category ''jazz dubstep'' = ''swing''" by code_simp
  from a b c show ?thesis by simp
qed

section \<open>Quantization\<close>

lemma py_round_of_int: "py_round (of_int k) = k"
  by (simp add: py_round_def)

lemma quantize_note_spec: "g \<noteq> 0 \<Longrightarrow> quantize_note g n = Inr (quantize_spec g n)"
  by (cases "duration n") (simp_all add: quantize_note_def quantize_spec_def snap_to_grid_def)

lemma quantize_loop_map:
  "g \<noteq> 0 \<Longrightarrow> quantize_loop g ns acc = Inr (acc @ map (quantize_spec g) ns)"
  by (induction ns arbitrary: acc) (simp_all add: quantize_note_spec)

lemma quantize_loop_zero:
  "quantize_loop 0 ns acc = Inr q \<Longrightarrow> ns = [] \<and> q = acc"
  by (cases ns) (simp_all add: quantize_note_def)

lemma snap_to_grid_idem: "g \<noteq> 0 \<Longrightarrow> snap_to_grid g (snap_to_grid g x) = snap_to_grid g x"
  by (simp add: snap_to_grid_def py_round_of_int)

lemma snap_duration_idem:
  assumes "g \<noteq> 0"
  shows "max g (snap_to_grid g (max g (snap_to_grid g d))) = max g (snap_to_grid g d)"
proof (cases "snap_to_grid g d \<le> g")
  case True
  then have "max g (snap_to_grid g d) = g" by (simp add: max_def)
  moreover have "snap_to_grid g g = g"
    using assms py_round_of_int [of 1] by (simp add: snap_to_grid_def)
  ultimately show ?thesis by simp
next
  case False
  then have "max g (snap_to_grid g d) = snap_to_grid g d" by (simp add: max_def)
  then show ?thesis using assms by (simp add: snap_to_grid_idem)
qed

lemma quantize_spec_idem: "g \<noteq> 0 \<Longrightarrow> quantize_spec g (quantize_spec g n) = quantize_spec g n"
  by (cases "duration n") (simp_all add: quantize_spec_def snap_to_grid_idem snap_duration_idem)

text \<open>
  Claim C6, as amended. For every note list and every grid \<open>g \<noteq> 0\<close> (the default is
  0.25), \<^const>\<open>quantize_notes\<close> raises nothing and returns the list in which each
  note's time is \<^verbatim>\<open>round(time / g) * g\<close>, each Pitched note's duration is
  \<^verbatim>\<open>max(g, round(duration / g) * g)\<close>, a Percussive note has no duration before or
  after, and every other key is unchanged; the empty list gives the empty list.
\<close>

theorem quantize_notes_contract:
  assumes "g \<noteq> 0"
  shows "quantize_notes S ns (Some g) = Inr (map (quantize_spec g) ns) \<and>
         (quantize_grid S \<noteq> 0 \<longrightarrow>
            quantize_notes S ns None = Inr (map (quantize_spec (quantize_grid S)) ns)) \<and>
         quantize_notes S [] (Some g) = Inr [] \<and>
         (\<forall>n \<in> set ns.
            time (quantize_spec g n) = of_int (py_round (time n / g)) * g \<and>
            (duration n = None \<longrightarrow> duration (quantize_spec g n) = None) \<and>
            (\<forall>d. duration n = Some d \<longrightarrow>
               duration (quantize_spec g n) = Some (max g (of_int (py_round (d / g)) * g))) \<and>
            drum (quantize_spec g n) = drum n \<and> midi_note (quantize_spec g n) = midi_note n \<and>
            pitch (quantize_spec g n) = pitch n \<and> velocity (quantize_spec g n) = velocity n)"
  using assms
  by (auto simp: quantize_notes_def quantize_loop_map quantize_spec_def snap_to_grid_def
      split: option.splits)

theorem quantize_notes_contract_witness:
  "(1 / 4 :: rat) \<noteq> 0 \<and>
   quantize_notes default_settings
     [piano_key 60 (6 / 10) (3 / 10) 80, drum_hit ''kick'' 36 (498 / 1000) 100] (Some (1 / 4)) =
   Inr [piano_key 60 (1 / 2) (1 / 4) 80, drum_hit ''kick'' 36 (1 / 2) 100]"
proof -
  have a: "(1 / 4 :: rat) \<noteq> 0" by simp
  have b: "map (quantize_spec (1 / 4))
             [piano_key 60 (6 / 10) (3 / 10) 80, drum_hit ''kick'' 36 (498 / 1000) 100] =
           [piano_key 60 (1 / 2) (1 / 4) 80, drum_hit ''kick'' 36 (1 / 2) 100]"
    by code_simp
  from quantize_notes_contract [OF a, where S = default_settings and
      ns = "[piano_key 60 (6 / 10) (3 / 10) 80, drum_hit ''kick'' 36 (498 / 1000) 100]"] a b
  show ?thesis by simp
qed

text \<open>The claim as it was stated asks for no error at any grid; at grid 0 the division
  \<^verbatim>\<open>n["time"] / grid\<close> raises.\<close>

theorem quantize_zero_grid_counterexample:
  "quantize_notes default_settings [drum_hit ''kick'' 36 0 100] (Some 0) = Inl ZeroDivisionError"
  by (simp add: quantize_notes_def quantize_note_def)

text \<open>
  Claim C8. Quantization is idempotent: whenever quantizing a list with a grid returns a
  list, quantizing that list again with the same grid returns the identical list; and
  quantizing does return a list whenever the grid is not zero.
\<close>

theorem quantize_notes_idempotent:
  "((case grid of None \<Rightarrow> quantize_grid S | Some g \<Rightarrow> g) \<noteq> 0 \<longrightarrow>
      (\<exists>q. quantize_notes S ns grid = Inr q)) \<and>
   (\<forall>q. quantize_notes S ns grid = Inr q \<longrightarrow> quantize_notes S q grid = Inr q)"
proof (cases "(case grid of None \<Rightarrow> quantize_grid S | Some g \<Rightarrow> g) = 0")
  case True
  then show ?thesis
    by (auto simp: quantize_notes_def dest!: quantize_loop_zero)
next
  case False
  then show ?thesis
    by (simp add: quantize_notes_def quantize_loop_map quantize_spec_idem)
qed

theorem quantize_notes_idempotent_witness:
  "quantize_notes default_settings
     [piano_key 60 (6 / 10) (3 / 10) 80, drum_hit ''kick'' 36 (498 / 1000) 100] None =
   Inr [piano_key 60 (1 / 2) (1 / 4) 80, drum_hit ''kick'' 36 (1 / 2) 100] \<and>
   quantize_notes default_settings
     [piano_key 60 (1 / 2) (1 / 4) 80, drum_hit ''kick'' 36 (1 / 2) 100] None =
   Inr [piano_key 60 (1 / 2) (1 / 4) 80, drum_hit ''kick'' 36 (1 / 2) 100]"
proof -
  have a: "quantize_notes default_settings
     [piano_key 60 (6 / 10) (3 / 10) 80, drum_hit ''kick'' 36 (498 / 1000) 100] None =
   Inr [piano_key 60 (1 / 2) (1 / 4) 80, drum_hit ''kick'' 36 (1 / 2) 100]"
    by code_simp
  from quantize_notes_idempotent [where grid = None and S = default_settings and
      ns = "[piano_key 60 (6 / 10) (3 / 10) 80, drum_hit ''kick'' 36 (498 / 1000) 100]"] a
  show ?thesis by simp
qed

section \<open>Ticks and deltas\<close>


lemma notes_loop_Inr:
  assumes "\<forall>n \<in> set ns. \<exists>sn. build n = Inr sn"
    and "\<And>seq sn. seq_notes (app seq sn) = seq_notes seq @ [sn]"
    and "\<And>seq sn. seq_tempos (app seq sn) = seq_tempos seq"
  shows "\<exists>seq. notes_loop build app ns seq0 = Inr seq \<and>
           seq_tempos seq = seq_tempos seq0 \<and>
           map Inr (seq_notes seq) = map Inr (seq_notes seq0) @ map build ns"
  using assms(1)
proof (induction ns arbitrary: seq0)
  case Nil
  then show ?case by simp
next
  case (Cons n ns)
  then obtain sn where sn: "build n = Inr sn" by auto
  from Cons.prems have "\<forall>n \<in> set ns. \<exists>sn. build n = Inr sn" by simp
  from Cons.IH [OF this, of "app seq0 sn"] sn assms(2,3) show ?case by auto
qed


lemma drum_seq_note_ok:
  "tempo \<noteq> 0 \<Longrightarrow> midi_note n = Some p \<Longrightarrow>
   drum_seq_note tempo n =
     Inr \<lparr> sn_pitch = p, sn_start_time = time n * 60 / of_int tempo,
           sn_end_time = time n * 60 / of_int tempo + 5 / 100, sn_velocity = velocity n,
           sn_is_drum = True, sn_instrument = 9 \<rparr>"
  by (simp add: drum_seq_note_def beats_to_seconds_def)

lemma piano_seq_note_ok:
  "tempo \<noteq> 0 \<Longrightarrow> pitch n = Some p \<Longrightarrow> duration n = Some d \<Longrightarrow>
   piano_seq_note tempo n =
     Inr \<lparr> sn_pitch = p, sn_start_time = time n * 60 / of_int tempo,
           sn_end_time = time n * 60 / of_int tempo + d * 60 / of_int tempo,
           sn_velocity = velocity n, sn_is_drum = False, sn_instrument = 0 \<rparr>"
  by (simp add: piano_seq_note_def beats_to_seconds_def)

lemma build_for_ok:
  "tempo \<noteq> 0 \<Longrightarrow> well_keyed instrument n \<Longrightarrow> \<exists>sn. build_for instrument tempo n = Inr sn"
  by (auto simp: build_for_def well_keyed_def drum_seq_note_ok piano_seq_note_ok)

lemma primer_only_to_sequence_ok:
  assumes "tempo \<noteq> 0" and "\<forall>n \<in> set ns. well_keyed instrument n"
  shows "\<exists>seq. primer_only_to_sequence flag ns instrument tempo = Inr seq \<and>
           seq_tempos seq = [tempo] \<and>
           map Inr (seq_notes seq) = map (build_for instrument tempo) ns"
proof -
  let ?b = "build_for instrument tempo"
  have ok: "\<forall>n \<in> set ns. \<exists>sn. ?b n = Inr sn"
    using assms build_for_ok by blast
  have fb: "\<exists>seq. notes_loop ?b add_note ns (FallbackSequence tempo) = Inr seq \<and>
           seq_tempos seq = seq_tempos (FallbackSequence tempo) \<and>
           map Inr (seq_notes seq) = map Inr (seq_notes (FallbackSequence tempo)) @ map ?b ns"
    by (rule notes_loop_Inr [OF ok]) (simp_all add: add_note_def)
  have pb: "\<exists>seq. notes_loop ?b pb_add ns (pb_sequence tempo) = Inr seq \<and>
           seq_tempos seq = seq_tempos (pb_sequence tempo) \<and>
           map Inr (seq_notes seq) = map Inr (seq_notes (pb_sequence tempo)) @ map ?b ns"
    by (rule notes_loop_Inr [OF ok]) (simp_all add: pb_add_def)
  show ?thesis
  proof (cases flag)
    case True
    from pb obtain seq where s: "notes_loop ?b pb_add ns (pb_sequence tempo) = Inr seq"
      "seq_tempos seq = [tempo]" "map Inr (seq_notes seq) = map ?b ns"
      by (auto simp: pb_sequence_def)
    then show ?thesis using True
      by (auto simp: primer_only_to_sequence_def drum_notes_to_sequence_def
          piano_notes_to_sequence_def build_for_def pb_set_total_time_def)
  next
    case False
    from fb obtain seq where s: "notes_loop ?b add_note ns (FallbackSequence tempo) = Inr seq"
      "seq_tempos seq = [tempo]" "map Inr (seq_notes seq) = map ?b ns"
      by (auto simp: FallbackSequence_def)
    then show ?thesis using False
      by (auto simp: primer_only_to_sequence_def drum_notes_to_sequence_def
          piano_notes_to_sequence_def build_for_def)
  qed
qed










section \<open>Sequence assembly and the tempo\<close>

text \<open>
  Claim C2, as amended. Assembly has no tempo range and no \<^verbatim>\<open>InvalidTempo\<close> condition:
  for every tempo other than 0, inside or outside \<open>[1, 1000]\<close>, and every list of notes
  that carry the keys of their instrument, \<^const>\<open>primer_only_to_sequence\<close> succeeds
  and returns a sequence with that tempo and one note per input note.
\<close>

theorem assembly_has_no_tempo_range:
  assumes "tempo \<noteq> 0" and "\<forall>n \<in> set ns. well_keyed instrument n"
  shows "\<exists>seq. primer_only_to_sequence flag ns instrument tempo = Inr seq \<and>
           seq_tempos seq = [tempo] \<and> length (seq_notes seq) = length ns"
proof -
  from primer_only_to_sequence_ok [OF assms, of flag]
  obtain seq where s: "primer_only_to_sequence flag ns instrument tempo = Inr seq"
    "seq_tempos seq = [tempo]" "map Inr (seq_notes seq) = map (build_for instrument tempo) ns"
    by auto
  from s(3) have "length (seq_notes seq) = length ns" by (metis length_map)
  with s(1,2) show ?thesis by simp
qed

theorem assembly_has_no_tempo_range_witness:
  "(120 :: int) \<noteq> 0 \<and> well_keyed ''drums'' (drum_hit ''kick'' 36 0 100) \<and>
   (\<exists>seq. primer_only_to_sequence True [drum_hit ''kick'' 36 0 100] ''drums'' 120 = Inr seq \<and>
           seq_tempos seq = [120] \<and> length (seq_notes seq) = length [drum_hit ''kick'' 36 0 100])"
proof -
  have a: "(120 :: int) \<noteq> 0" by simp
  have b: "\<forall>n \<in> set [drum_hit ''kick'' 36 0 100]. well_keyed ''drums'' n"
    by (simp add: well_keyed_def drum_hit_def)
  from assembly_has_no_tempo_range [OF a b, of True] a b show ?thesis by simp
qed

text \<open>The claim as it was stated asks for a failure at every tempo outside
  \<open>[1, 1000]\<close>. At tempo 2000 the assembly succeeds.\<close>

theorem tempo_2000_accepted_counterexample:
  "primer_only_to_sequence False [drum_hit ''kick'' 36 0 100] ''drums'' 2000 =
   Inr \<lparr> seq_notes = [\<lparr> sn_pitch = 36, sn_start_time = 0, sn_end_time = 1 / 20,
                          sn_velocity = 100, sn_is_drum = True, sn_instrument = 9 \<rparr>],
         seq_tempos = [2000], seq_tempo = Some 2000, seq_ticks_per_quarter = 480,
         seq_total_time = 1 / 20 \<rparr>"
  by code_simp

section \<open>Scenario A: one kick at time 0\<close>

text \<open>
  Claim C4, as amended. For a single kick (key 36 of the drum map) at time 0 with
  velocity 100, tempo 120 and 480 ticks per quarter, the track holds one Note-On on
  channel 9, pitch 36, at tick 0, and the matching Note-Off 48 ticks later: a drum hit
  lasts the fixed 0.05 seconds, which is 0.1 beat at 120 beats per minute. (At tempo 60
  the same constant is 24 ticks.)
\<close>

theorem scenario_A_encoding:
  "map_of DRUM_MIDI_MAP ''kick'' = Some 36 \<and>
   primer_to_midi [drum_hit ''kick'' 36 0 100] ''drums'' 120 =
     Inr \<lparr> ticks_per_beat = 480,
           track = [MetaSetTempo 120, Message ''note_on'' 36 100 9 0,
                    Message ''note_off'' 36 0 9 48] \<rparr> \<and>
   primer_to_midi [drum_hit ''kick'' 36 0 100] ''drums'' 60 =
     Inr \<lparr> ticks_per_beat = 480,
           track = [MetaSetTempo 60, Message ''note_on'' 36 100 9 0,
                    Message ''note_off'' 36 0 9 24] \<rparr>"
  by code_simp

text \<open>The claim as it was stated puts the Note-Off about 24 ticks after the Note-On at
  tempo 120; the track with a Note-Off at delta 24 is not the one written.\<close>

theorem scenario_A_note_off_counterexample:
  "primer_to_midi [drum_hit ''kick'' 36 0 100] ''drums'' 120 \<noteq>
     Inr \<lparr> ticks_per_beat = 480,
           track = [MetaSetTempo 120, Message ''note_on'' 36 100 9 0,
                    Message ''note_off'' 36 0 9 24] \<rparr>"
  by code_simp

section \<open>The funk ghost-note stage\<close>

lemma tape_random_contract: "random_contract tape_random"
proof -
  have r: "\<And>x :: int. 0 \<le> (of_int (x mod 100) / 100 :: rat) \<and> (of_int (x mod 100) / 100 :: rat) < 1"
  proof -
    fix x :: int
    have a: "0 \<le> x mod 100" and b: "x mod 100 < 100" by simp_all
    from a have "(of_int 0 :: rat) \<le> of_int (x mod 100)" by (simp only: of_int_le_iff)
    moreover from b have "(of_int (x mod 100) :: rat) < of_int 100" by (simp only: of_int_less_iff)
    ultimately show "0 \<le> (of_int (x mod 100) / 100 :: rat) \<and> (of_int (x mod 100) / 100 :: rat) < 1"
      by simp
  qed
  have i: "\<And>a b x :: int. a \<le> b \<Longrightarrow> a \<le> a + x mod (b - a + 1) \<and> a + x mod (b - a + 1) \<le> b"
  proof -
    fix a b x :: int assume "a \<le> b"
    then have "0 < b - a + 1" by simp
    then have "0 \<le> x mod (b - a + 1)" "x mod (b - a + 1) < b - a + 1"
      by (simp_all only: pos_mod_sign pos_mod_bound)
    then show "a \<le> a + x mod (b - a + 1) \<and> a + x mod (b - a + 1) \<le> b" by linarith
  qed
  show ?thesis
    unfolding random_contract_def tape_random_def
    by (auto simp: r i split: list.splits)
qed

lemma sixteenth_loop_ghost_run:
  "sixteenth_loop R st mt bar xs (acc, g) = ghost_run R (bar_slots st mt bar xs) (acc, g)"
proof (induction xs arbitrary: acc g)
  case Nil
  then show ?case by (simp add: bar_slots_def)
next
  case (Cons s xs)
  show ?case
  proof (cases "slot_time bar s > mt")
    case True
    then show ?thesis by (simp add: bar_slots_def slot_time_def)
  next
    case False
    note nb = this
    show ?thesis
    proof (cases "near_snare st (slot_time bar s)")
      case True
      with nb Cons.IH [of acc g] show ?thesis
        by (simp add: bar_slots_def slot_time_def near_snare_def)
    next
      case False
      with nb Cons.IH show ?thesis
        by (auto simp: bar_slots_def slot_time_def near_snare_def Let_def split: prod.splits)
    qed
  qed
qed

lemma ghost_run_append:
  "ghost_run R (xs @ ys) st = ghost_run R ys (ghost_run R xs st)"
proof (induction xs arbitrary: st)
  case Nil
  then show ?case by simp
next
  case (Cons x xs)
  obtain acc g where st: "st = (acc, g)" by (cases st)
  show ?case unfolding st by (simp add: Cons.IH Let_def split: prod.splits)
qed

lemma bar_loop_ghost_run:
  "bar_loop R st mt bars s =
   ghost_run R (concat (map (\<lambda>bar. bar_slots st mt bar [0..15]) bars)) s"
proof (induction bars arbitrary: s)
  case Nil
  then show ?case by simp
next
  case (Cons b bars)
  obtain acc g where s: "s = (acc, g)" by (cases s)
  show ?case unfolding s
    by (simp add: Cons.IH sixteenth_loop_ghost_run ghost_run_append)
qed

lemma add_funk_ghost_notes_run:
  "add_funk_ghost_notes R ns g =
     (ns @ fst (ghost_run R (candidate_slots ns) ([], g)),
      snd (ghost_run R (candidate_slots ns) ([], g)))"
  by (simp add: add_funk_ghost_notes_def candidate_slots_def bar_loop_ghost_run Let_def
      split: prod.splits)

lemma ghost_run_state:
  "snd (ghost_run R slots (acc, g)) = (ghost_draw R ^^ length slots) g"
proof (induction slots arbitrary: acc g)
  case Nil
  then show ?case by simp
next
  case (Cons x xs)
  obtain r g1 where r: "rnd_random R g = (r, g1)" by (cases "rnd_random R g")
  obtain v g2 where v: "rnd_randint R 35 55 g1 = (v, g2)" by (cases "rnd_randint R 35 55 g1")
  show ?case
  proof (cases "r < 4 / 10")
    case True
    then have d: "ghost_draw R g = g2" by (simp add: ghost_draw_def r v)
    have "snd (ghost_run R (x # xs) (acc, g)) = snd (ghost_run R xs (acc @ [ghost_note x v], g2))"
      using True r v by simp
    also have "\<dots> = (ghost_draw R ^^ length xs) (ghost_draw R g)" by (simp only: Cons.IH d)
    finally show ?thesis by (simp add: funpow_swap1)
  next
    case False
    then have d: "ghost_draw R g = g1" by (simp add: ghost_draw_def r)
    have "snd (ghost_run R (x # xs) (acc, g)) = snd (ghost_run R xs (acc, g1))"
      using False r by simp
    also have "\<dots> = (ghost_draw R ^^ length xs) (ghost_draw R g)" by (simp only: Cons.IH d)
    finally show ?thesis by (simp add: funpow_swap1)
  qed
qed

lemma ghost_run_notes:
  assumes "random_contract R"
  shows "\<exists>new. fst (ghost_run R slots (acc, g)) = acc @ new \<and>
           (\<forall>n \<in> set new. \<exists>slot \<in> set slots. \<exists>v. n = ghost_note slot v \<and> 35 \<le> v \<and> v \<le> 55)"
proof (induction slots arbitrary: acc g)
  case Nil
  then show ?case by simp
next
  case (Cons x xs)
  obtain r g1 where r: "rnd_random R g = (r, g1)" by (cases "rnd_random R g")
  obtain v g2 where v: "rnd_randint R 35 55 g1 = (v, g2)" by (cases "rnd_randint R 35 55 g1")
  have vr: "35 \<le> v \<and> v \<le> 55"
  proof -
    have "(35 :: int) \<le> 55" by simp
    with assms have "35 \<le> fst (rnd_randint R 35 55 g1) \<and> fst (rnd_randint R 35 55 g1) \<le> 55"
      unfolding random_contract_def by blast
    then show ?thesis by (simp add: v)
  qed
  show ?case
  proof (cases "r < 4 / 10")
    case True
    from Cons.IH [of "acc @ [ghost_note x v]" g2]
    obtain new where new: "fst (ghost_run R xs (acc @ [ghost_note x v], g2)) = (acc @ [ghost_note x v]) @ new"
      "\<forall>n \<in> set new. \<exists>slot \<in> set xs. \<exists>v. n = ghost_note slot v \<and> 35 \<le> v \<and> v \<le> 55"
      by blast
    have "fst (ghost_run R (x # xs) (acc, g)) = acc @ (ghost_note x v # new)"
      using True r v new(1) by simp
    moreover have "\<forall>n \<in> set (ghost_note x v # new). \<exists>slot \<in> set (x # xs). \<exists>v.
        n = ghost_note slot v \<and> 35 \<le> v \<and> v \<le> 55"
      using new(2) vr by auto
    ultimately show ?thesis by blast
  next
    case False
    from Cons.IH [of acc g1]
    obtain new where new: "fst (ghost_run R xs (acc, g1)) = acc @ new"
      "\<forall>n \<in> set new. \<exists>slot \<in> set xs. \<exists>v. n = ghost_note slot v \<and> 35 \<le> v \<and> v \<le> 55"
      by blast
    have "fst (ghost_run R (x # xs) (acc, g)) = acc @ new"
      using False r new(1) by simp
    moreover have "\<forall>n \<in> set new. \<exists>slot \<in> set (x # xs). \<exists>v.
        n = ghost_note slot v \<and> 35 \<le> v \<and> v \<le> 55"
      using new(2) by auto
    ultimately show ?thesis by blast
  qed
qed


lemma bar_slots_mem:
  assumes "t \<in> set (bar_slots st mt bar xs)"
  shows "\<exists>s \<in> set xs. t = slot_time bar s \<and> (s mod 4 = 1 \<or> s mod 4 = 3) \<and>
           \<not> near_snare st t \<and> t \<le> mt"
proof -
  from assms obtain s where s: "s \<in> set (takeWhile (\<lambda>s. \<not> slot_time bar s > mt) xs)"
    "t = slot_time bar s" "s mod 4 = 1 \<or> s mod 4 = 3" "\<not> near_snare st (slot_time bar s)"
    by (auto simp: bar_slots_def)
  from s(1) have "s \<in> set xs" and "\<not> slot_time bar s > mt"
    by (auto dest: set_takeWhileD)
  with s show ?thesis by auto
qed

lemma slot_time_index:
  "slot_time bar s = of_int (16 * bar + s) * (1 / 4)"
  by (simp add: slot_time_def algebra_simps)

lemma slot_index_mod: "(16 * bar + s) mod 4 = s mod (4 :: int)"
  by presburger

lemma fold_max_in: "fold max xs (x :: rat) \<in> set (x # xs)"
proof (induction xs arbitrary: x)
  case Nil
  then show ?case by simp
next
  case (Cons y ys)
  have "max y x = x \<or> max y x = y" by (simp add: max_def)
  moreover have "fold max ys (max y x) \<in> set (max y x # ys)" by (rule Cons.IH)
  moreover have "fold max (y # ys) x = fold max ys (max y x)" by simp
  ultimately show ?case by (metis insert_iff list.simps(15))
qed

lemma py_max_default_in:
  "xs \<noteq> [] \<Longrightarrow> py_max_default xs d \<in> set xs"
  using fold_max_in by (cases xs) auto

lemma candidate_slots_mem:
  assumes "t \<in> set (candidate_slots ns)"
  shows "(\<exists>k. 0 \<le> k \<and> t = of_int k * (1 / 4) \<and> (k mod 4 = 1 \<or> k mod 4 = 3)) \<and>
         (\<forall>m \<in> set ns. drum m = Some ''snare'' \<longrightarrow> \<not> \<bar>t - time m\<bar> < 1 / 100) \<and>
         (\<exists>m \<in> set ns. t \<le> time m)"
proof -
  let ?st = "map time (filter (\<lambda>n. drum n = Some ''snare'') ns)"
  let ?mt = "py_max_default (map time ns) 0"
  from assms obtain bar where bar: "0 \<le> bar" "t \<in> set (bar_slots ?st ?mt bar [0..15])"
    by (auto simp: candidate_slots_def Let_def)
  from bar_slots_mem [OF bar(2)] obtain s where s: "0 \<le> s" "t = slot_time bar s"
    "s mod 4 = 1 \<or> s mod 4 = 3" "\<not> near_snare ?st t" "t \<le> ?mt"
    by auto
  let ?k = "16 * bar + s"
  have k0: "0 \<le> ?k" using bar(1) s(1) by simp
  have km: "?k mod 4 = 1 \<or> ?k mod 4 = 3" using s(3) by (simp only: slot_index_mod)
  have tk: "t = of_int ?k * (1 / 4)" using s(2) by (simp only: slot_time_index)
  have one: "\<exists>k. 0 \<le> k \<and> t = of_int k * (1 / 4) \<and> (k mod 4 = 1 \<or> k mod 4 = 3)"
    using k0 km tk by blast
  have two: "\<forall>m \<in> set ns. drum m = Some ''snare'' \<longrightarrow> \<not> \<bar>t - time m\<bar> < 1 / 100"
    using s(4) by (auto simp: near_snare_def list_ex_iff)
  have "?k \<noteq> 0" using km by auto
  with k0 have "1 \<le> ?k" by simp
  then have "(1 :: rat) \<le> of_int ?k" by (simp only: of_int_1_le_iff)
  then have tpos: "0 < t" unfolding tk by simp
  have three: "\<exists>m \<in> set ns. t \<le> time m"
  proof (cases "ns = []")
    case True
    with s(5) tpos show ?thesis by simp
  next
    case False
    then have "?mt \<in> set (map time ns)" by (intro py_max_default_in) simp
    with s(5) show ?thesis by auto
  qed
  from one two three show ?thesis by blast
qed

text \<open>
  Claim C10. Whatever the generator draws within its documented ranges, the funk
  ghost-note stage returns the input list unchanged and in order, followed by new
  notes only; each new note is a snare with MIDI key 38 and a velocity in \<open>[35, 55]\<close>,
  at a sixteenth slot \<open>k / 4\<close> whose index \<open>k\<close> is 1 or 3 modulo 4, not within 0.01
  beats of a snare of the input, and not later than the latest input note.
\<close>

theorem funk_ghost_notes_frame:
  assumes "random_contract R"
  shows "\<exists>ghosts. fst (add_funk_ghost_notes R ns g) = ns @ ghosts \<and>
           (\<forall>n \<in> set ghosts.
              drum n = Some ''snare'' \<and> midi_note n = Some 38 \<and>
              35 \<le> velocity n \<and> velocity n \<le> 55 \<and>
              (\<exists>k. 0 \<le> k \<and> time n = of_int k * (1 / 4) \<and> (k mod 4 = 1 \<or> k mod 4 = 3)) \<and>
              (\<forall>m \<in> set ns. drum m = Some ''snare'' \<longrightarrow> \<not> \<bar>time n - time m\<bar> < 1 / 100) \<and>
              (\<exists>m \<in> set ns. time n \<le> time m))"
proof -
  from ghost_run_notes [OF assms, of "candidate_slots ns" "[]" g]
  obtain new where new: "fst (ghost_run R (candidate_slots ns) ([], g)) = new"
    "\<forall>n \<in> set new. \<exists>slot \<in> set (candidate_slots ns). \<exists>v.
        n = ghost_note slot v \<and> 35 \<le> v \<and> v \<le> 55"
    by auto
  have out: "fst (add_funk_ghost_notes R ns g) = ns @ new"
    by (simp add: add_funk_ghost_notes_run new(1))
  have "\<forall>n \<in> set new.
              drum n = Some ''snare'' \<and> midi_note n = Some 38 \<and>
              35 \<le> velocity n \<and> velocity n \<le> 55 \<and>
              (\<exists>k. 0 \<le> k \<and> time n = of_int k * (1 / 4) \<and> (k mod 4 = 1 \<or> k mod 4 = 3)) \<and>
              (\<forall>m \<in> set ns. drum m = Some ''snare'' \<longrightarrow> \<not> \<bar>time n - time m\<bar> < 1 / 100) \<and>
              (\<exists>m \<in> set ns. time n \<le> time m)"
  proof
    fix n assume "n \<in> set new"
    with new(2) obtain slot v where sv: "slot \<in> set (candidate_slots ns)"
      "n = ghost_note slot v" "35 \<le> v" "v \<le> 55"
      by blast
    from candidate_slots_mem [OF sv(1)] sv(2,3,4)
    show "drum n = Some ''snare'' \<and> midi_note n = Some 38 \<and>
              35 \<le> velocity n \<and> velocity n \<le> 55 \<and>
              (\<exists>k. 0 \<le> k \<and> time n = of_int k * (1 / 4) \<and> (k mod 4 = 1 \<or> k mod 4 = 3)) \<and>
              (\<forall>m \<in> set ns. drum m = Some ''snare'' \<longrightarrow> \<not> \<bar>time n - time m\<bar> < 1 / 100) \<and>
              (\<exists>m \<in> set ns. time n \<le> time m)"
      by (simp add: ghost_note_def)
  qed
  with out show ?thesis by blast
qed

text \<open>The witness: three notes, and a generator that draws 0.10 (a ghost, of velocity
  42, at slot 1/4) and 0.50 (no ghost at slot 5/4); slot 3/4 holds a snare.\<close>

theorem funk_ghost_notes_frame_witness:
  "add_funk_ghost_notes tape_random example_groove [10, 7, 50, 39, 20] =
     (example_groove @ [ghost_note (1 / 4) 42], [39, 20]) \<and>
   take (length example_groove) (fst (add_funk_ghost_notes tape_random example_groove [10, 7, 50, 39, 20])) = example_groove \<and>
   velocity (ghost_note (1 / 4) 42) \<le> 55"
proof -
  have e: "add_funk_ghost_notes tape_random example_groove [10, 7, 50, 39, 20] =
     (example_groove @ [ghost_note (1 / 4) 42], [39, 20])"
    by code_simp
  from funk_ghost_notes_frame [OF tape_random_contract, of example_groove "[10, 7, 50, 39, 20]"]
  obtain ghosts where g:
    "fst (add_funk_ghost_notes tape_random example_groove [10, 7, 50, 39, 20]) = example_groove @ ghosts"
    "\<forall>n \<in> set ghosts. velocity n \<le> 55"
    by blast
  from g(1) e have "ghosts = [ghost_note (1 / 4) 42]" by simp
  with g(2) have v: "velocity (ghost_note (1 / 4) 42) \<le> 55" by simp
  from g(1) have "take (length example_groove) (fst (add_funk_ghost_notes tape_random example_groove [10, 7, 50, 39, 20])) = example_groove"
    by simp
  with e v show ?thesis by simp
qed


section \<open>Velocity bounds\<close>

lemma py_int_scale_up:
  assumes "0 \<le> v" and "1 \<le> c"
  shows "v \<le> py_int (of_int v * c)"
proof -
  have "(0 :: rat) \<le> of_int v" using assms(1) by simp
  then have "of_int v * 1 \<le> of_int v * c" using assms(2) by (rule mult_left_mono [rotated])
  then have le: "(of_int v :: rat) \<le> of_int v * c" by simp
  then have "\<lfloor>(of_int v :: rat)\<rfloor> \<le> \<lfloor>of_int v * c\<rfloor>" by (rule floor_mono)
  moreover have "0 \<le> of_int v * c" using le \<open>(0 :: rat) \<le> of_int v\<close> by linarith
  ultimately show ?thesis by (simp add: py_int_def)
qed

lemma py_int_scale_down:
  assumes "0 \<le> v" and "0 \<le> c" and "c \<le> 1"
  shows "py_int (of_int v * c) \<le> v"
proof -
  have v: "(0 :: rat) \<le> of_int v" using assms(1) by simp
  then have "of_int v * c \<le> of_int v * 1" using assms(3) by (rule mult_left_mono [rotated])
  then have le: "of_int v * c \<le> (of_int v :: rat)" by simp
  then have "\<lfloor>of_int v * c\<rfloor> \<le> \<lfloor>(of_int v :: rat)\<rfloor>" by (rule floor_mono)
  moreover have "0 \<le> of_int v * c" using v assms(2) by simp
  ultimately show ?thesis by (simp add: py_int_def)
qed

lemma swing_note_velocity: "velocity (swing_note r n) = velocity n"
  by (simp add: swing_note_def Let_def)

lemma rock_note_within:
  assumes "0 \<le> velocity_min S" "velocity_min S \<le> velocity_max S"
    and "velocity_min S \<le> velocity n" "velocity n \<le> velocity_max S"
  shows "velocity_min S \<le> velocity (rock_note S n) \<and> velocity (rock_note S n) \<le> velocity_max S"
proof -
  have v: "0 \<le> velocity n" using assms by linarith
  have up: "velocity n \<le> py_int (of_int (velocity n) * (115 / 100))"
    using v by (rule py_int_scale_up) simp
  have down: "py_int (of_int (velocity n) * (95 / 100)) \<le> velocity n"
    using v by (rule py_int_scale_down) simp_all
  from up down assms show ?thesis
    by (auto simp: rock_note_def Let_def)
qed

lemma reggae_note_within:
  assumes "0 \<le> velocity_min S" "velocity_min S \<le> velocity_max S"
    and "velocity_min S \<le> velocity n" "velocity n \<le> velocity_max S"
  shows "velocity_min S \<le> velocity (reggae_note S n) \<and>
         velocity (reggae_note S n) \<le> velocity_max S"
proof -
  have v: "0 \<le> velocity n" using assms by linarith
  have up: "velocity n \<le> py_int (of_int (velocity n) * (12 / 10))"
    using v by (rule py_int_scale_up) simp
  have down: "py_int (of_int (velocity n) * (85 / 100)) \<le> velocity n"
    using v by (rule py_int_scale_down) simp_all
  from up down assms show ?thesis
    by (auto simp: reggae_note_def Let_def)
qed

lemma apply_swing_within:
  "velocities_within S ns \<Longrightarrow> velocities_within S (apply_swing S ns ratio)"
  by (simp add: velocities_within_def apply_swing_def Let_def list_all_iff swing_note_velocity)

lemma apply_rock_within:
  assumes "0 \<le> velocity_min S" "velocity_min S \<le> velocity_max S" "velocities_within S ns"
  shows "velocities_within S (apply_rock_emphasis S ns)"
  using assms rock_note_within
  by (simp add: velocities_within_def apply_rock_emphasis_def list_all_iff)

lemma apply_reggae_within:
  assumes "0 \<le> velocity_min S" "velocity_min S \<le> velocity_max S" "velocities_within S ns"
  shows "velocities_within S (apply_reggae_offbeat S ns)"
  using assms reggae_note_within
  by (simp add: velocities_within_def apply_reggae_offbeat_def list_all_iff)

lemma humanize_loop_within:
  assumes "velocity_min S \<le> velocity_max S"
    and "humanize_loop S R ta va ns (acc, g) = Inr (out, g')"
    and "velocities_within S acc"
  shows "velocities_within S out"
  using assms(2,3)
proof (induction ns arbitrary: acc g)
  case Nil
  then show ?case by simp
next
  case (Cons n ns)
  obtain d g1 where d: "rnd_gauss R 0 (ta / 2) g = (d, g1)" by (cases "rnd_gauss R 0 (ta / 2) g")
  obtain w g2 where w: "rnd_randint R (- va) va g1 = (w, g2)"
    by (cases "rnd_randint R (- va) va g1")
  let ?n' = "n\<lparr> time := max 0 (time n + max (- ta) (min ta d)),
                 velocity := max (velocity_min S) (min (velocity_max S) (velocity n + w)) \<rparr>"
  from Cons.prems(1) have nn: "\<not> va < 0" by (auto simp: d Let_def split: if_splits)
  with Cons.prems(1) have run: "humanize_loop S R ta va ns (acc @ [?n'], g2) = Inr (out, g')"
    by (simp add: d w Let_def)
  have "velocities_within S (acc @ [?n'])"
    using Cons.prems(2) assms(1) by (simp add: velocities_within_def)
  from Cons.IH [OF run this] show ?case .
qed

lemma humanize_loop_total:
  assumes "0 \<le> va"
  shows "\<exists>out. humanize_loop S R ta va ns (acc, g) = Inr (out, (humanize_draw R ta va ^^ length ns) g)"
proof (induction ns arbitrary: acc g)
  case Nil
  then show ?case by simp
next
  case (Cons n ns)
  obtain d g1 where d: "rnd_gauss R 0 (ta / 2) g = (d, g1)" by (cases "rnd_gauss R 0 (ta / 2) g")
  obtain w g2 where w: "rnd_randint R (- va) va g1 = (w, g2)"
    by (cases "rnd_randint R (- va) va g1")
  let ?n' = "n\<lparr> time := max 0 (time n + max (- ta) (min ta d)),
                 velocity := max (velocity_min S) (min (velocity_max S) (velocity n + w)) \<rparr>"
  have hd: "humanize_draw R ta va g = g2" by (simp add: humanize_draw_def d w)
  have step: "humanize_loop S R ta va (n # ns) (acc, g) = humanize_loop S R ta va ns (acc @ [?n'], g2)"
    using assms by (simp add: d w Let_def)
  from Cons.IH [of "acc @ [?n']" g2] obtain out where
    "humanize_loop S R ta va ns (acc @ [?n'], g2) = Inr (out, (humanize_draw R ta va ^^ length ns) g2)"
    by blast
  with step hd show ?case by (simp add: funpow_swap1)
qed

text \<open>
  Claim C3, as amended. With \<open>0 \<le> velocity_min \<le> velocity_max\<close> and every input velocity
  in \<open>[velocity_min, velocity_max]\<close>: every note in the output of Swing, Rock emphasis,
  Reggae, Neutral, and Funk without ghost insertion has its velocity in that range; in
  the output of Funk with ghost insertion every note has its velocity in that range or
  in the ghost range \<open>[35, 55]\<close>; and every note in the output of the Humanizer, on any
  input, has its velocity in \<open>[velocity_min, velocity_max]\<close>.
\<close>

theorem velocity_bounds_after_stages:
  assumes "0 \<le> velocity_min S" and "velocity_min S \<le> velocity_max S"
    and "velocities_within S ns"
  shows "velocities_within S (apply_swing S ns ratio) \<and>
         velocities_within S (apply_rock_emphasis S ns) \<and>
         velocities_within S (apply_reggae_offbeat S ns) \<and>
         (category \<noteq> ''funk'' \<or> instrument \<noteq> ''drums'' \<longrightarrow>
            velocities_within S (fst (style_transform S R category instrument ns g))) \<and>
         (random_contract R \<longrightarrow>
            list_all (\<lambda>n. (velocity_min S \<le> velocity n \<and> velocity n \<le> velocity_max S) \<or>
                           (35 \<le> velocity n \<and> velocity n \<le> 55))
              (fst (style_transform S R ''funk'' ''drums'' ns g))) \<and>
         (\<forall>out g'. humanize S R ms ta va g = Inr (out, g') \<longrightarrow> velocities_within S out)"
proof -
  note sw = apply_swing_within [OF assms(3)]
  note ro = apply_rock_within [OF assms]
  note re = apply_reggae_within [OF assms]
  have st: "category \<noteq> ''funk'' \<or> instrument \<noteq> ''drums'' \<longrightarrow>
            velocities_within S (fst (style_transform S R category instrument ns g))"
    using sw ro re assms(3) by (auto simp: style_transform_def Let_def)
  have fk: "random_contract R \<longrightarrow>
            list_all (\<lambda>n. (velocity_min S \<le> velocity n \<and> velocity n \<le> velocity_max S) \<or>
                           (35 \<le> velocity n \<and> velocity n \<le> 55))
              (fst (style_transform S R ''funk'' ''drums'' ns g))"
  proof
    assume rc: "random_contract R"
    let ?em = "apply_rock_emphasis S ns"
    from ghost_run_notes [OF rc, of "candidate_slots ?em" "[]" g]
    obtain new where new: "fst (ghost_run R (candidate_slots ?em) ([], g)) = new"
      "\<forall>n \<in> set new. \<exists>slot \<in> set (candidate_slots ?em). \<exists>v.
          n = ghost_note slot v \<and> 35 \<le> v \<and> v \<le> 55"
      by auto
    have out: "fst (style_transform S R ''funk'' ''drums'' ns g) = ?em @ new"
      by (simp add: style_transform_def Let_def add_funk_ghost_notes_run new(1))
    have "\<forall>n \<in> set new. 35 \<le> velocity n \<and> velocity n \<le> 55"
      using new(2) by (auto simp: ghost_note_def)
    with ro show "list_all (\<lambda>n. (velocity_min S \<le> velocity n \<and> velocity n \<le> velocity_max S) \<or>
                           (35 \<le> velocity n \<and> velocity n \<le> 55))
              (fst (style_transform S R ''funk'' ''drums'' ns g))"
      unfolding out by (auto simp: velocities_within_def list_all_iff)
  qed
  have hu: "\<forall>out g'. humanize S R ms ta va g = Inr (out, g') \<longrightarrow> velocities_within S out"
  proof (intro allI impI)
    fix out g' assume "humanize S R ms ta va g = Inr (out, g')"
    then show "velocities_within S out"
      unfolding humanize_def Let_def
      by (rule humanize_loop_within [OF assms(2)]) (simp add: velocities_within_def)
  qed
  from sw ro re st fk hu show ?thesis by blast
qed

text \<open>The witness: rock emphasis lifts a kick of velocity 90 on beat 1 to 103.\<close>

theorem velocity_bounds_after_stages_witness:
  "velocities_within default_settings [drum_hit ''kick'' 36 0 90] \<and>
   style_transform default_settings tape_random ''rock'' ''drums''
     [drum_hit ''kick'' 36 0 90] [] = ([drum_hit ''kick'' 36 0 103], []) \<and>
   velocities_within default_settings
     (fst (style_transform default_settings tape_random ''rock'' ''drums''
        [drum_hit ''kick'' 36 0 90] []))"
proof -
  have a: "0 \<le> velocity_min default_settings" by (simp add: default_settings_def)
  have b: "velocity_min default_settings \<le> velocity_max default_settings"
    by (simp add: default_settings_def)
  have c: "velocities_within default_settings [drum_hit ''kick'' 36 0 90]" by code_simp
  have d: "style_transform default_settings tape_random ''rock'' ''drums''
     [drum_hit ''kick'' 36 0 90] [] = ([drum_hit ''kick'' 36 0 103], [])"
    by code_simp
  have e: "''rock'' \<noteq> ''funk''" by simp
  from velocity_bounds_after_stages [OF a b c, where category = "''rock''" and
      instrument = "''drums''" and R = tape_random and g = "[]"] e
  have "velocities_within default_settings
     (fst (style_transform default_settings tape_random ''rock'' ''drums''
        [drum_hit ''kick'' 36 0 90] []))"
    by blast
  with c d show ?thesis by simp
qed

text \<open>The claim as it was stated puts the ghost notes of the funk stage inside
  \<open>[velocity_min, velocity_max]\<close> too. With the default bounds \<open>[40, 120]\<close>, a generator
  that draws 0.0 and then the velocity 35 yields a ghost note below the minimum.\<close>

theorem ghost_velocity_below_minimum_counterexample:
  "velocities_within default_settings [drum_hit ''kick'' 36 (1 / 4) 100] \<and>
   fst (style_transform default_settings tape_random ''funk'' ''drums''
          [drum_hit ''kick'' 36 (1 / 4) 100] [0, 0]) =
     [drum_hit ''kick'' 36 (1 / 4) 100, ghost_note (1 / 4) 35] \<and>
   \<not> velocities_within default_settings
        (fst (style_transform default_settings tape_random ''funk'' ''drums''
                [drum_hit ''kick'' 36 (1 / 4) 100] [0, 0]))"
  by code_simp

section \<open>The random source of the two randomized stages\<close>

text \<open>
  Claim C5, as amended. Neither stage takes a random source or a seed: both read the
  generator of the process and leave it advanced. The funk ghost-note stage advances it
  by one draw of \<^verbatim>\<open>random()\<close>, followed by one draw of \<^verbatim>\<open>randint(35, 55)\<close> when the
  first is below 0.4, for each candidate slot; the Humanizer, for a velocity amount that
  is not negative, by one draw of \<^verbatim>\<open>gauss\<close> and one of \<^verbatim>\<open>randint\<close> for each note. The
  output of an invocation is a function of its input and of the state of the generator
  at entry.
\<close>

theorem stages_advance_process_generator:
  "snd (add_funk_ghost_notes R ns g) = (ghost_draw R ^^ length (candidate_slots ns)) g \<and>
   (let ta = (case timing_amount of None \<Rightarrow> humanize_timing S | Some t \<Rightarrow> t);
        va = (case velocity_amount of None \<Rightarrow> humanize_velocity S | Some v \<Rightarrow> v)
    in 0 \<le> va \<longrightarrow>
       (\<exists>out. humanize S R ns timing_amount velocity_amount g =
                 Inr (out, (humanize_draw R ta va ^^ length ns) g)))"
proof -
  have "snd (add_funk_ghost_notes R ns g) = (ghost_draw R ^^ length (candidate_slots ns)) g"
    by (simp add: add_funk_ghost_notes_run ghost_run_state)
  moreover have "let ta = (case timing_amount of None \<Rightarrow> humanize_timing S | Some t \<Rightarrow> t);
        va = (case velocity_amount of None \<Rightarrow> humanize_velocity S | Some v \<Rightarrow> v)
    in 0 \<le> va \<longrightarrow>
       (\<exists>out. humanize S R ns timing_amount velocity_amount g =
                 Inr (out, (humanize_draw R ta va ^^ length ns) g))"
    by (simp add: humanize_def Let_def humanize_loop_total)
  ultimately show ?thesis by blast
qed

text \<open>The witness: the Humanizer on one note consumes two draws of a tape of four.\<close>

theorem stages_advance_process_generator_witness:
  "humanize default_settings tape_random [drum_hit ''kick'' 36 1 100] None None [0, 5, 0, 9] =
     Inr ([drum_hit ''kick'' 36 1 97], [0, 9]) \<and>
   (humanize_draw tape_random (humanize_timing default_settings)
      (humanize_velocity default_settings) ^^ length [drum_hit ''kick'' 36 1 100]) [0, 5, 0, 9] =
     [0, 9]"
proof -
  have a: "humanize default_settings tape_random [drum_hit ''kick'' 36 1 100] None None
             [0, 5, 0, 9] = Inr ([drum_hit ''kick'' 36 1 97], [0, 9])"
    by code_simp
  have b: "0 \<le> humanize_velocity default_settings" by (simp add: default_settings_def)
  from stages_advance_process_generator [where S = default_settings and R = tape_random and
      ns = "[drum_hit ''kick'' 36 1 100]" and timing_amount = None and velocity_amount = None and
      g = "[0, 5, 0, 9]"] a b
  show ?thesis by (simp add: Let_def)
qed

text \<open>The claim as it was stated has the stages leave the shared generator alone, so
  that a second invocation on the same input gives the same output. The Humanizer called
  twice in a row on the same note: the first call leaves the generator advanced, and
  the second call, which starts from that state, returns another velocity.\<close>

theorem second_invocation_differs_counterexample:
  "humanize default_settings tape_random [drum_hit ''kick'' 36 1 100] None None [0, 5, 0, 9] =
     Inr ([drum_hit ''kick'' 36 1 97], [0, 9]) \<and>
   humanize default_settings tape_random [drum_hit ''kick'' 36 1 100] None None [0, 9] =
     Inr ([drum_hit ''kick'' 36 1 101], []) \<and>
   [drum_hit ''kick'' 36 1 97] \<noteq> [drum_hit ''kick'' 36 1 101]"
  by code_simp

end
